theory Spec2Isabelle
  imports Complex_Main "HOL-Library.Log_Nat"
begin

section \<open>Text and errors\<close>

text \<open>
  A Python 3 \<^verbatim>\<open>str\<close> is a sequence of Unicode code points, so a character is a
  natural number and the text of a document is a list of them.  File names and language
  codes are plain ASCII strings.
\<close>

type_synonym uchar = nat
type_synonym ustring = "uchar list"

datatype error =
    Exception string
  | OSError
  | ZeroDivisionError
  | OverflowError
  | ValueError

section \<open>The regular expressions of \<^verbatim>\<open>flesch.py\<close>\<close>

text \<open>
  Both patterns of the source are sequences of character classes, each taken once,
  repeated greedily one or more times (\<^verbatim>\<open>+\<close>) or repeated lazily zero or more times
  (\<^verbatim>\<open>*?\<close>).  \<open>re_match\<close> is the backtracking matcher of Python's \<^verbatim>\<open>re\<close> module on
  such patterns, anchored at the start of the text: it returns the text left after the
  first match in backtracking order, or \<open>None\<close>.
\<close>

datatype quantifier = Once | Plus_greedy | Star_lazy

type_synonym atom = "(uchar \<Rightarrow> bool) \<times> quantifier"
type_synonym pattern = "atom list"

fun re_match :: "pattern \<Rightarrow> ustring \<Rightarrow> ustring option" where
  "re_match [] s = Some s"
| "re_match ((cls, Once) # p) [] = None"
| "re_match ((cls, Once) # p) (c # s) = (if cls c then re_match p s else None)"
| "re_match ((cls, Plus_greedy) # p) [] = None"
| "re_match ((cls, Plus_greedy) # p) (c # s) =
     (if cls c
      then (case re_match ((cls, Plus_greedy) # p) s of
              Some r \<Rightarrow> Some r
            | None \<Rightarrow> re_match p s)
      else None)"
| "re_match ((cls, Star_lazy) # p) [] = re_match p []"
| "re_match ((cls, Star_lazy) # p) (c # s) =
     (case re_match p (c # s) of
        Some r \<Rightarrow> Some r
      | None \<Rightarrow> if cls c then re_match ((cls, Star_lazy) # p) s else None)"

text \<open>
  \<^verbatim>\<open>re.findall\<close>: scan from left to right; where the pattern matches, report the matched
  text and go on behind it; where it does not, move one character on.  (A match of the
  empty text also moves one character on; neither pattern of the source has one.)
\<close>

function re_findall :: "pattern \<Rightarrow> ustring \<Rightarrow> ustring list" where
  "re_findall p [] = (case re_match p [] of Some r \<Rightarrow> [[]] | None \<Rightarrow> [])"
| "re_findall p (c # s) =
     (case re_match p (c # s) of
        None \<Rightarrow> re_findall p s
      | Some r \<Rightarrow>
          take (Suc (length s) - length r) (c # s) #
          (if length r < Suc (length s) then re_findall p r else re_findall p s))"
  by pat_completeness auto
termination
  by (relation "measure (\<lambda>(p, s). length s)") auto

subsection \<open>Character classes\<close>

definition in_range :: "nat \<Rightarrow> nat \<Rightarrow> uchar \<Rightarrow> bool" where
  "in_range lo hi c = (lo \<le> c \<and> c \<le> hi)"

text \<open>
  The class of line 28: \<^verbatim>\<open>a-z\<close>, \<^verbatim>\<open>A-Z\<close> and the seven letters U+00E4, U+00F6, U+00FC,
  U+00C4, U+00D6, U+00DC and U+00DF (the umlauts and the sharp s, each one code point in
  the source file).
\<close>

definition is_letter :: "uchar \<Rightarrow> bool" where
  "is_letter c = (in_range 97 122 c \<or> in_range 65 90 c \<or>
     c = 228 \<or> c = 246 \<or> c = 252 \<or> c = 196 \<or> c = 214 \<or> c = 220 \<or> c = 223)"

text \<open>The first class of line 43: \<^verbatim>\<open>A-Z\<close> and U+00C4, U+00D6, U+00DC.\<close>

definition is_upper :: "uchar \<Rightarrow> bool" where
  "is_upper c = (in_range 65 90 c \<or> c = 196 \<or> c = 214 \<or> c = 220)"

text \<open>\<^verbatim>\<open>.\<close> without the DOTALL flag: every character but the line feed U+000A.\<close>

definition is_dot :: "uchar \<Rightarrow> bool" where
  "is_dot c = (c \<noteq> 10)"

text \<open>\<^verbatim>\<open>[.:!?]\<close>: U+002E, U+003A, U+0021, U+003F.\<close>

definition is_terminal :: "uchar \<Rightarrow> bool" where
  "is_terminal c = (c = 46 \<or> c = 58 \<or> c = 33 \<or> c = 63)"

text \<open>
  \<^verbatim>\<open>\s\<close> in a \<^verbatim>\<open>str\<close> pattern: the Unicode whitespace characters, that is
  U+0009..U+000D, U+001C..U+0020, U+0085, U+00A0, U+1680, U+2000..U+200A, U+2028,
  U+2029, U+202F, U+205F and U+3000.
\<close>

definition is_space :: "uchar \<Rightarrow> bool" where
  "is_space c = (in_range 9 13 c \<or> in_range 28 32 c \<or> c = 133 \<or> c = 160 \<or> c = 5760 \<or>
     in_range 8192 8202 c \<or> c = 8232 \<or> c = 8233 \<or> c = 8239 \<or> c = 8287 \<or> c = 12288)"

definition word_pattern :: pattern where
  "word_pattern = [(is_letter, Plus_greedy)]"

definition sentence_pattern :: pattern where
  "sentence_pattern = [(is_upper, Once), (is_dot, Star_lazy), (is_terminal, Once), (is_space, Once)]"

section \<open>The environment: files, the hyphenation library, floating point\<close>

text \<open>
  The file system maps a file name to the decoded text of the file; \<open>opened\<close> logs
  every file the program has opened and \<open>loaded\<close> every locale for which it has
  created a hyphenator, the latest first.
\<close>

record world =
  files :: "string \<rightharpoonup> ustring"
  opened :: "string list"
  loaded :: "string list"

definition open_read :: "world \<Rightarrow> string \<Rightarrow> (error + ustring) \<times> world" where
  "open_read w filename =
     (let w' = w\<lparr>opened := filename # opened w\<rparr>
      in case files w filename of
           None \<Rightarrow> (Inl OSError, w')
         | Some text \<Rightarrow> (Inr text, w'))"

text \<open>
  \<^verbatim>\<open>hyphen.Hyphenator(locale)\<close> belongs to the PyHyphen library, not to this program:
  it is a parameter \<open>Hyphenator\<close>, and \<open>Hyphenator locale word\<close> is the list that the
  \<^verbatim>\<open>syllables\<close> method of the hyphenator for \<open>locale\<close> returns for \<open>word\<close>.
  Creating a hyphenator is logged in the world.
\<close>

type_synonym hyphenator = "ustring \<Rightarrow> ustring list"

definition new_Hyphenator ::
  "(string \<Rightarrow> hyphenator) \<Rightarrow> world \<Rightarrow> string \<Rightarrow> hyphenator \<times> world" where
  "new_Hyphenator Hyphenator w locale = (Hyphenator locale, w\<lparr>loaded := locale # loaded w\<rparr>)"

text \<open>
  The methods take the \<^verbatim>\<open>float\<close> arithmetic as a parameter \<open>fp\<close>: the quotient of
  two integers (\<open>truediv\<close>, for a divisor other than zero), product and difference of
  floats, the float that a decimal literal denotes (\<open>literal m k\<close> for \<open>m\<close> times ten
  to the \<open>-k\<close>), and \<^verbatim>\<open>int(round(x))\<close>, which can raise.
\<close>

record 'f float_ops =
  truediv :: "int \<Rightarrow> int \<Rightarrow> 'f"
  fmul :: "'f \<Rightarrow> 'f \<Rightarrow> 'f"
  fsub :: "'f \<Rightarrow> 'f \<Rightarrow> 'f"
  literal :: "int \<Rightarrow> nat \<Rightarrow> 'f"
  int_round :: "'f \<Rightarrow> error + int"

definition py_truediv :: "'f float_ops \<Rightarrow> int \<Rightarrow> int \<Rightarrow> error + 'f" where
  "py_truediv fp a b = (if b = 0 then Inl ZeroDivisionError else Inr (truediv fp a b))"

subsection \<open>Python's floats\<close>

text \<open>
  A \<^verbatim>\<open>float\<close> of CPython is an IEEE 754 binary64 number: a rational with a
  significand of 53 bits and an exponent from -1022 to 1023, an infinity or a NaN.
  (The sign of a zero is left out: product, difference and rounding to an integer
  give the same integer for either zero.)
\<close>

datatype double = Finite rat | Infinity bool | NaN

definition pow2 :: "int \<Rightarrow> rat" where
  "pow2 e = 2 powi e"

text \<open>For \<open>q > 0\<close>, the integer \<open>e\<close> with \<open>2 ^ e \<le> q < 2 ^ (e + 1)\<close>.\<close>

definition ilog2 :: "rat \<Rightarrow> int" where
  "ilog2 q = (if 1 \<le> q then bitlen \<lfloor>q\<rfloor> - 1 else - bitlen (\<lceil>1 / q\<rceil> - 1))"

text \<open>Rounding to the nearest integer, a half to the even neighbour.\<close>

definition round_half_even :: "rat \<Rightarrow> int" where
  "round_half_even x =
     (let f = \<lfloor>x\<rfloor>; d = x - of_int f
      in if d < 1 / 2 then f else if 1 / 2 < d then f + 1 else if even f then f else f + 1)"

text \<open>
  Rounding a rational to the nearest binary64 number, a tie to the even significand:
  the result is \<open>significand q\<close> units in the last place \<open>2 ^ (exponent q - 52)\<close>, and
  an infinity when that is \<open>2 ^ 1024\<close> or more.  Below \<open>2 ^ -1022\<close> the exponent stays
  at -1022 (subnormal numbers).
\<close>

definition exponent :: "rat \<Rightarrow> int" where
  "exponent q = max (ilog2 \<bar>q\<bar>) (- 1022)"

definition significand :: "rat \<Rightarrow> int" where
  "significand q = round_half_even (\<bar>q\<bar> / pow2 (exponent q - 52))"

definition nearest :: "rat \<Rightarrow> rat" where
  "nearest q = sgn q * of_int (significand q) * pow2 (exponent q - 52)"

definition binary64 :: "rat \<Rightarrow> double" where
  "binary64 q =
     (if q = 0 then Finite 0
      else if 1024 \<le> exponent q \<or> (exponent q = 1023 \<and> significand q = 2 ^ 53)
      then Infinity (q < 0)
      else Finite (nearest q))"

text \<open>
  Product and difference round the exact result; \<open>Infinity True\<close> is the negative
  infinity.
\<close>

fun double_mul :: "double \<Rightarrow> double \<Rightarrow> double" where
  "double_mul (Finite a) (Finite b) = binary64 (a * b)"
| "double_mul (Finite a) (Infinity t) = (if a = 0 then NaN else Infinity ((a < 0) \<noteq> t))"
| "double_mul (Infinity s) (Finite b) = (if b = 0 then NaN else Infinity (s \<noteq> (b < 0)))"
| "double_mul (Infinity s) (Infinity t) = Infinity (s \<noteq> t)"
| "double_mul x y = NaN"

fun double_sub :: "double \<Rightarrow> double \<Rightarrow> double" where
  "double_sub (Finite a) (Finite b) = binary64 (a - b)"
| "double_sub (Finite a) (Infinity t) = Infinity (\<not> t)"
| "double_sub (Infinity s) (Finite b) = Infinity s"
| "double_sub (Infinity s) (Infinity t) = (if s = t then NaN else Infinity s)"
| "double_sub x y = NaN"

text \<open>
  \<^verbatim>\<open>round(x)\<close> returns the integer nearest to \<open>x\<close>, a half going to the even
  neighbour; it raises \<^verbatim>\<open>OverflowError\<close> for an infinity and \<^verbatim>\<open>ValueError\<close>
  for a NaN.
\<close>

fun double_round :: "double \<Rightarrow> error + int" where
  "double_round (Finite a) = Inr (round_half_even a)"
| "double_round (Infinity s) = Inl OverflowError"
| "double_round NaN = Inl ValueError"

text \<open>
  The arithmetic of CPython.  Where the quotient of two integers is too large for a
  \<^verbatim>\<open>float\<close>, the division of Python raises \<^verbatim>\<open>OverflowError\<close> at once; here the
  quotient is an infinity, and for the counts of a constructed object, which are not
  negative, the same exception comes from \<open>double_round\<close>.
\<close>

definition double_ops :: "double float_ops" where
  "double_ops = \<lparr>truediv = (\<lambda>a b. binary64 (of_int a / of_int b)),
     fmul = double_mul, fsub = double_sub,
     literal = (\<lambda>m k. binary64 (of_int m / 10 ^ k)), int_round = double_round\<rparr>"

section \<open>The class \<^verbatim>\<open>Flesch\<close>\<close>

record analyzer =
  hyphenation :: hyphenator
  lang :: string
  content :: ustring
  words :: "ustring list"
  n_sentences :: int
  n_words :: int
  n_syllables :: int

definition count_words :: "analyzer \<Rightarrow> int" where
  "count_words self = int (length (words self))"

text \<open>
  The pattern of line 43 has one group, so \<^verbatim>\<open>re.findall\<close> returns the text of that
  group for every match instead of the whole match: the same number of strings.
\<close>

definition count_sentences :: "analyzer \<Rightarrow> int" where
  "count_sentences self = int (length (re_findall sentence_pattern (content self)))"

definition count_word_syllables :: "analyzer \<Rightarrow> ustring \<Rightarrow> int" where
  "count_word_syllables self word =
     (let n = int (length (hyphenation self word))
      in if n = 0 then 1 else n)"

definition count_syllables :: "analyzer \<Rightarrow> int" where
  "count_syllables self = sum_list (map (count_word_syllables self) (words self))"

definition calc_reading_ease_en :: "'f float_ops \<Rightarrow> 'f \<Rightarrow> 'f \<Rightarrow> error + int" where
  "calc_reading_ease_en fp asl asw =
     int_round fp (fsub fp (fsub fp (literal fp 206835 3) (fmul fp (literal fp 1015 3) asl))
                           (fmul fp (literal fp 846 1) asw))"

definition calc_reading_ease_de :: "'f float_ops \<Rightarrow> 'f \<Rightarrow> 'f \<Rightarrow> error + int" where
  "calc_reading_ease_de fp asl asw =
     int_round fp (fsub fp (fsub fp (literal fp 180 0) asl) (fmul fp (literal fp 585 1) asw))"

text \<open>
  \<^verbatim>\<open>calc_reading_ease\<close> returns an integer, or Python's \<^verbatim>\<open>None\<close> (here \<open>None\<close>) when
  the language is neither of the two, or raises.
\<close>

definition returned :: "error + int \<Rightarrow> error + int option" where
  "returned r = (case r of Inl e \<Rightarrow> Inl e | Inr n \<Rightarrow> Inr (Some n))"

definition calc_reading_ease :: "'f float_ops \<Rightarrow> analyzer \<Rightarrow> error + int option" where
  "calc_reading_ease fp self =
     (case py_truediv fp (n_words self) (n_sentences self) of
        Inl e \<Rightarrow> Inl e
      | Inr asl \<Rightarrow>
          (case py_truediv fp (n_syllables self) (n_words self) of
             Inl e \<Rightarrow> Inl e
           | Inr asw \<Rightarrow>
               if lang self = ''de'' then returned (calc_reading_ease_de fp asl asw)
               else if lang self = ''en'' then returned (calc_reading_ease_en fp asl asw)
               else Inr None))"

text \<open>
  The constructor.  The three counts are assigned last, from methods that read only
  \<open>content\<close>, \<open>words\<close> and \<open>hyphenation\<close>; until then they hold 0 here.
\<close>

definition init ::
  "(string \<Rightarrow> hyphenator) \<Rightarrow> world \<Rightarrow> string \<Rightarrow> string \<Rightarrow> (error + analyzer) \<times> world" where
  "init Hyphenator w filename lang' =
     (case (if lang' = ''de'' then Inr (new_Hyphenator Hyphenator w ''de_DE'')
            else if lang' = ''en'' then Inr (new_Hyphenator Hyphenator w ''en_US'')
            else Inl (Exception ''Requested language not supported (Supported: 'en', 'de').'')) of
        Inl e \<Rightarrow> (Inl e, w)
      | Inr (hyph, w1) \<Rightarrow>
          (case open_read w1 filename of
             (Inl e, w2) \<Rightarrow> (Inl e, w2)
           | (Inr text, w2) \<Rightarrow>
               let self = \<lparr>hyphenation = hyph, lang = lang', content = text,
                            words = re_findall word_pattern text,
                            n_sentences = 0, n_words = 0, n_syllables = 0\<rparr>;
                   self = self\<lparr>n_sentences := count_sentences self\<rparr>;
                   self = self\<lparr>n_words := int (length (words self))\<rparr>;
                   self = self\<lparr>n_syllables := count_syllables self\<rparr>
               in (Inr self, w2)))"

text \<open>
  A call of a method on a constructed object, as a step on the object's state: no method
  of the class assigns to an attribute, so each step returns the object it was given.
\<close>

datatype method_call =
    Count_words
  | Count_sentences
  | Count_word_syllables ustring
  | Count_syllables
  | Calc_reading_ease

fun call :: "'f float_ops \<Rightarrow> method_call \<Rightarrow> analyzer \<Rightarrow> (error + int option) \<times> analyzer" where
  "call fp Count_words self = (Inr (Some (count_words self)), self)"
| "call fp Count_sentences self = (Inr (Some (count_sentences self)), self)"
| "call fp (Count_word_syllables word) self = (Inr (Some (count_word_syllables self word)), self)"
| "call fp Count_syllables self = (Inr (Some (count_syllables self)), self)"
| "call fp Calc_reading_ease self = (calc_reading_ease fp self, self)"

fun calls :: "'f float_ops \<Rightarrow> method_call list \<Rightarrow> analyzer \<Rightarrow> (error + int option) list \<times> analyzer" where
  "calls fp [] self = ([], self)"
| "calls fp (m # ms) self =
     (case call fp m self of
        (r, self') \<Rightarrow> (case calls fp ms self' of (rs, self'') \<Rightarrow> (r # rs, self'')))"

section \<open>The specification's descriptions\<close>

subsection \<open>Words as maximal runs of letters\<close>




subsection \<open>Sentences by the heuristic\<close>

text \<open>
  The heuristic, read from left to right: a sentence begins at an uppercase letter and
  extends, through characters of the class \<open>body\<close>, to the nearest terminal mark that is
  followed by whitespace; the search goes on behind that whitespace.  An uppercase letter
  from which no such mark is reached begins no sentence.  \<open>heuristic_end body s\<close> is the
  text behind the sentence whose first letter stands before \<open>s\<close>.
\<close>

fun heuristic_end :: "(uchar \<Rightarrow> bool) \<Rightarrow> ustring \<Rightarrow> ustring option" where
  "heuristic_end body (c # d # r) =
     (if is_terminal c \<and> is_space d then Some r
      else if body c then heuristic_end body (d # r) else None)"
| "heuristic_end body s = None"

function heuristic_count :: "(uchar \<Rightarrow> bool) \<Rightarrow> ustring \<Rightarrow> nat" where
  "heuristic_count body [] = 0"
| "heuristic_count body (c # s) =
     (if is_upper c
      then (case heuristic_end body s of
              Some r \<Rightarrow> Suc (heuristic_count body r)
            | None \<Rightarrow> heuristic_count body s)
      else heuristic_count body s)"
  by pat_completeness auto
termination
proof -
  have shorter: "heuristic_end body s = Some r \<Longrightarrow> length r < length s" for body s r
    by (induction body s rule: heuristic_end.induct) (auto split: if_splits)
  show ?thesis
    by (relation "measure (\<lambda>(body, s). length s)") (auto dest: shorter)
qed

text \<open>"Any characters" between the first letter and the mark.\<close>

definition any_char :: "uchar \<Rightarrow> bool" where
  "any_char c = True"

subsection \<open>The score\<close>

text \<open>The two formulas over the rational numbers, and the two usual roundings.\<close>

definition flesch_en :: "rat \<Rightarrow> rat \<Rightarrow> rat" where
  "flesch_en asl asw = 206835 / 1000 - 1015 / 1000 * asl - 846 / 10 * asw"

definition amstad_de :: "rat \<Rightarrow> rat \<Rightarrow> rat" where
  "amstad_de asl asw = 180 - asl - 585 / 10 * asw"

definition round_half_away :: "rat \<Rightarrow> int" where
  "round_half_away x = (if 0 \<le> x then \<lfloor>x + 1 / 2\<rfloor> else \<lceil>x - 1 / 2\<rceil>)"

text \<open>
  The two formulas in binary64 arithmetic: every literal, and every product and difference
  from left to right, is rounded to the nearest binary64 number.
\<close>

definition flesch_en_binary64 :: "rat \<Rightarrow> rat \<Rightarrow> rat" where
  "flesch_en_binary64 asl asw =
     nearest (nearest (nearest (206835 / 1000) - nearest (nearest (1015 / 1000) * asl)) -
              nearest (nearest (846 / 10) * asw))"

definition amstad_de_binary64 :: "rat \<Rightarrow> rat \<Rightarrow> rat" where
  "amstad_de_binary64 asl asw =
     nearest (nearest (nearest 180 - asl) - nearest (nearest (585 / 10) * asw))"

text \<open>
  The score of a formula for given counts of sentences, words and syllables: both
  quotients are rounded to binary64, the value of the formula to an integer.
\<close>

definition binary64_score :: "(rat \<Rightarrow> rat \<Rightarrow> rat) \<Rightarrow> int \<Rightarrow> int \<Rightarrow> int \<Rightarrow> int" where
  "binary64_score formula s w y =
     round_half_even (formula (nearest (of_int w / of_int s)) (nearest (of_int y / of_int w)))"

section \<open>Running the definitions on examples\<close>

text \<open>
  Concrete values for the parameters: a stand-in dictionary that leaves words of up to
  three letters undivided, cuts words of four to six letters behind the second letter and
  longer ones behind the fourth letter as well; a file system with the one file
  \<^verbatim>\<open>test.txt\<close>.
\<close>

definition sample_Hyphenator :: "string \<Rightarrow> hyphenator" where
  "sample_Hyphenator locale word =
     (if length word \<le> 3 then []
      else if length word \<le> 6 then [take 2 word, drop 2 word]
      else [take 2 word, take 2 (drop 2 word), drop 4 word])"

definition sample_world :: "ustring \<Rightarrow> world" where
  "sample_world text = \<lparr>files = [''test.txt'' \<mapsto> text], opened = [], loaded = []\<rparr>"

text \<open>
  The object that the constructor returns for a file with the text \<open>text\<close> in one of the
  two languages, in closed form (lemma \<open>init_constructed\<close> below).
\<close>

definition constructed :: "(string \<Rightarrow> hyphenator) \<Rightarrow> string \<Rightarrow> ustring \<Rightarrow> analyzer" where
  "constructed Hyphenator l text =
     \<lparr>hyphenation = Hyphenator (if l = ''de'' then ''de_DE'' else ''en_US''),
      lang = l, content = text,
      words = re_findall word_pattern text,
      n_sentences = int (length (re_findall sentence_pattern text)),
      n_words = int (length (re_findall word_pattern text)),
      n_syllables =
        (\<Sum>word\<leftarrow>re_findall word_pattern text.
           if Hyphenator (if l = ''de'' then ''de_DE'' else ''en_US'') word = [] then 1
           else int (length (Hyphenator (if l = ''de'' then ''de_DE'' else ''en_US'') word)))\<rparr>"

text \<open>The text \<^verbatim>\<open>Ab cdefg. \<close>\<close>

definition sample_text :: ustring where
  "sample_text = [65, 98, 32, 99, 100, 101, 102, 103, 46, 32]"

text \<open>
  A sentence broken over two lines: \<^verbatim>\<open>A\<close>, line feed, \<^verbatim>\<open>b. \<close>; and one of a
  hard-wrapped file: \<^verbatim>\<open>The fox\<close>, line feed, \<^verbatim>\<open>jumps. \<close>
\<close>

definition wrapped_text :: ustring where
  "wrapped_text = [65, 10, 98, 46, 32]"

definition fox_text :: ustring where
  "fox_text = [84, 104, 101, 32, 102, 111, 120, 10, 106, 117, 109, 112, 115, 46, 32]"

text \<open>
  One sentence of thirteen words, twelve of four letters and one of seven:
  \<^verbatim>\<open>Abcd abcd ... abcd abcdefg. \<close>
\<close>

definition thirteen_words :: ustring where
  "thirteen_words =
     [65, 98, 99, 100, 32] @ concat (replicate 11 [97, 98, 99, 100, 32]) @
     [97, 98, 99, 100, 101, 102, 103, 46, 32]"


text \<open>
  One sentence of one word and \<open>n\<close> more words after it: \<^verbatim>\<open>A. a a a ... \<close>
\<close>

definition many_words :: "nat \<Rightarrow> ustring" where
  "many_words n = [65, 46, 32] @ concat (replicate n [97, 32])"

section \<open>Facts about the two patterns\<close>

lemma re_match_plus:
  "re_match [(cls, Plus_greedy)] (c # s) = (if cls c then Some (dropWhile cls s) else None)"
  by (induction s arbitrary: c) auto

lemma findall_words_Nil: "re_findall word_pattern [] = []"
  by (simp add: word_pattern_def)

lemma take_takeWhile_len: "take (length (takeWhile P s)) s = takeWhile P s"
  by (induction s) auto

lemma findall_words_Cons:
  "re_findall word_pattern (c # s) =
     (if is_letter c then (c # takeWhile is_letter s) # re_findall word_pattern (dropWhile is_letter s)
      else re_findall word_pattern s)"
proof -
  have len: "length (dropWhile is_letter s) \<le> length s"
    by (simp add: length_dropWhile_le)
  have "length (takeWhile is_letter s) + length (dropWhile is_letter s) = length s"
    by (metis length_append takeWhile_dropWhile_id)
  then have "Suc (length s) - length (dropWhile is_letter s) = Suc (length (takeWhile is_letter s))"
    by arith
  then show ?thesis
    using len unfolding word_pattern_def
    by (simp add: re_match_plus take_takeWhile_len less_Suc_eq_le del: re_match.simps)
qed






lemma heuristic_end_shorter: "heuristic_end body s = Some r \<Longrightarrow> length r < length s"
  by (induction body s rule: heuristic_end.induct) (auto split: if_splits)

lemma re_match_lazy:
  "re_match [(body, Star_lazy), (is_terminal, Once), (is_space, Once)] s = heuristic_end body s"
  by (induction body s rule: heuristic_end.induct) auto

lemma re_match_sentence:
  "re_match sentence_pattern (c # s) = (if is_upper c then heuristic_end is_dot s else None)"
  using re_match_lazy [of is_dot s] by (simp add: sentence_pattern_def del: re_match.simps(6,7))

lemma findall_sentences:
  "length (re_findall sentence_pattern s) = heuristic_count is_dot s"
proof (induction is_dot s rule: heuristic_count.induct)
  case 1
  show ?case by (simp add: sentence_pattern_def)
next
  case (2 c s)
  show ?case
  proof (cases "is_upper c")
    case False
    with 2 show ?thesis by (simp add: re_match_sentence del: re_match.simps)
  next
    case True
    show ?thesis
    proof (cases "heuristic_end is_dot s")
      case None
      with True 2 show ?thesis by (simp add: re_match_sentence del: re_match.simps)
    next
      case (Some r)
      then have "length r < Suc (length s)"
        using heuristic_end_shorter [of is_dot s r] by simp
      with Some True 2 show ?thesis by (simp add: re_match_sentence del: re_match.simps)
    qed
  qed
qed



section \<open>Facts about binary64 rounding\<close>

lemma pow2_pos: "0 < pow2 e"
  by (simp add: pow2_def)

lemma pow2_add: "pow2 (a + b) = pow2 a * pow2 b"
  by (simp add: pow2_def power_int_add)

lemma pow2_mono: "a \<le> b \<Longrightarrow> pow2 a \<le> pow2 b"
  by (simp add: pow2_def power_int_increasing)

lemma pow2_strict_mono: "a < b \<Longrightarrow> pow2 a < pow2 b"
  by (simp add: pow2_def power_int_strict_increasing)

lemma pow2_nat: "0 \<le> e \<Longrightarrow> pow2 e = 2 ^ nat e"
  by (simp add: pow2_def power_int_def)

lemma pow2_neg: "pow2 (- e) = 1 / pow2 e"
  by (simp add: pow2_def power_int_minus_divide)

lemma ilog2_bounds:
  assumes "0 < q"
  shows "pow2 (ilog2 q) \<le> q" and "q < pow2 (ilog2 q + 1)"
proof -
  have "pow2 (ilog2 q) \<le> q \<and> q < pow2 (ilog2 q + 1)"
  proof (cases "1 \<le> q")
    case True
    define n where "n = \<lfloor>q\<rfloor>"
    have n: "0 < n" using True by (simp add: n_def)
    have b: "1 \<le> bitlen n" using n bitlen_eq_zero_iff [of n] bitlen_nonneg [of n] by linarith
    note bb = bitlen_bounds [OF n]
    have e: "ilog2 q = bitlen n - 1" using True by (simp add: ilog2_def n_def)
    have "pow2 (bitlen n - 1) = of_int (2 ^ nat (bitlen n - 1))"
      using b by (simp add: pow2_nat)
    also have "\<dots> \<le> of_int n" using bb by (simp only: of_int_le_iff)
    also have "\<dots> \<le> q" by (simp add: n_def)
    finally have lo: "pow2 (ilog2 q) \<le> q" by (simp add: e)
    have "q < of_int (n + 1)" using floor_correct [of q] by (simp add: n_def)
    also have "n + 1 \<le> 2 ^ nat (bitlen n)" using bb by simp
    then have "(of_int (n + 1) :: rat) \<le> of_int (2 ^ nat (bitlen n))"
      by (simp only: of_int_le_iff)
    also have "\<dots> = pow2 (bitlen n - 1 + 1)" using b by (simp add: pow2_nat)
    finally have "q < pow2 (ilog2 q + 1)" by (simp add: e)
    with lo show ?thesis by simp
  next
    case False
    define m where "m = \<lceil>1 / q\<rceil> - 1"
    have r: "1 < 1 / q" using False assms by simp
    then have m: "0 < m" by (simp add: m_def less_ceiling_iff)
    have b: "1 \<le> bitlen m" using m bitlen_eq_zero_iff [of m] bitlen_nonneg [of m] by linarith
    note bb = bitlen_bounds [OF m]
    have e: "ilog2 q = - bitlen m" using False by (simp add: ilog2_def m_def)
    have up: "1 / q \<le> of_int (m + 1)" by (simp add: m_def)
    have lo: "of_int m < 1 / q" using ceiling_correct [of "1 / q"] by (simp add: m_def)
    have "m + 1 \<le> 2 ^ nat (bitlen m)" using bb by simp
    then have "(of_int (m + 1) :: rat) \<le> of_int (2 ^ nat (bitlen m))"
      by (simp only: of_int_le_iff)
    also have "\<dots> = pow2 (bitlen m)" using b by (simp add: pow2_nat)
    finally have "1 / q \<le> pow2 (bitlen m)" using up by simp
    then have "1 \<le> pow2 (bitlen m) * q" using assms by (simp add: field_simps)
    then have p1: "pow2 (ilog2 q) \<le> q"
      using pow2_pos [of "bitlen m"] by (simp add: e pow2_neg field_simps)
    have "pow2 (bitlen m - 1) = of_int (2 ^ nat (bitlen m - 1))"
      using b by (simp add: pow2_nat)
    also have "\<dots> \<le> of_int m" using bb by (simp only: of_int_le_iff)
    also have "\<dots> < 1 / q" by (rule lo)
    finally have "pow2 (bitlen m - 1) * q < 1" using assms by (simp add: field_simps)
    then have "q < 1 / pow2 (bitlen m - 1)"
      using pow2_pos [of "bitlen m - 1"] by (simp add: field_simps)
    also have "1 / pow2 (bitlen m - 1) = pow2 (ilog2 q + 1)"
      using pow2_neg [of "bitlen m - 1"] by (simp add: e)
    finally have "q < pow2 (ilog2 q + 1)" .
    with p1 show ?thesis by simp
  qed
  then show "pow2 (ilog2 q) \<le> q" and "q < pow2 (ilog2 q + 1)" by simp_all
qed

lemma round_half_even_le: "x \<le> of_int n \<Longrightarrow> round_half_even x \<le> n"
  by (auto simp: round_half_even_def Let_def floor_le_iff le_floor_iff)

lemma round_half_even_nonneg: "0 \<le> x \<Longrightarrow> 0 \<le> round_half_even x"
  by (auto simp: round_half_even_def Let_def)

lemma nearest_0: "nearest 0 = 0"
  by (simp add: nearest_def)

lemma binary64_finite:
  assumes "\<bar>q\<bar> \<le> 2 ^ k" and "k \<le> 1023"
  shows "binary64 q = Finite (nearest q) \<and> \<bar>nearest q\<bar> \<le> 2 ^ k"
proof (cases "q = 0")
  case True
  then show ?thesis by (simp add: binary64_def nearest_0)
next
  case False
  define a where "a = \<bar>q\<bar>"
  have a: "0 < a" using False by (simp add: a_def)
  have ak: "a \<le> pow2 (int k)" using assms(1) by (simp add: a_def pow2_nat)
  have e0: "ilog2 a \<le> int k"
  proof (rule ccontr)
    assume "\<not> ilog2 a \<le> int k"
    then have "int k + 1 \<le> ilog2 a" by simp
    then have "pow2 (int k + 1) \<le> pow2 (ilog2 a)" by (rule pow2_mono)
    also have "\<dots> \<le> a" using a by (rule ilog2_bounds)
    also have "\<dots> \<le> pow2 (int k)" by (rule ak)
    finally show False using pow2_strict_mono [of "int k" "int k + 1"] by simp
  qed
  define ec where "ec = exponent q"
  have ec: "ec \<le> int k" using e0 by (simp add: ec_def exponent_def a_def)
  define d where "d = nat (int k - ec + 52)"
  have d: "int d = int k - ec + 52" using ec by (simp add: d_def)
  define ulp where "ulp = pow2 (ec - 52)"
  have ulp: "0 < ulp" by (simp add: ulp_def pow2_pos)
  have split: "pow2 (int k) = of_int (2 ^ d) * ulp"
  proof -
    have "pow2 (int k) = pow2 (int d + (ec - 52))" using d by simp
    also have "\<dots> = pow2 (int d) * ulp" by (simp only: pow2_add ulp_def)
    finally show ?thesis by (simp add: pow2_nat)
  qed
  define m where "m = significand q"
  have m_def': "m = round_half_even (a / ulp)"
    by (simp add: m_def significand_def a_def ulp_def ec_def)
  have "a / ulp \<le> of_int (2 ^ d)"
    using ak ulp split by (simp add: field_simps)
  then have m_le: "m \<le> 2 ^ d" unfolding m_def' by (rule round_half_even_le)
  have m_ge: "0 \<le> m" unfolding m_def' using a ulp by (intro round_half_even_nonneg) simp
  have "\<bar>nearest q\<bar> = of_int m * ulp"
    using False m_ge ulp
    by (simp add: nearest_def m_def ulp_def ec_def abs_mult)
  also have "\<dots> \<le> of_int (2 ^ d) * ulp"
    using m_le ulp by (simp only: mult_le_cancel_right_pos of_int_le_iff)
  also have "\<dots> = 2 ^ k" using split by (simp add: pow2_nat)
  finally have bound: "\<bar>nearest q\<bar> \<le> 2 ^ k" .
  have "\<not> 1024 \<le> ec" using ec assms(2) by simp
  moreover have "\<not> (ec = 1023 \<and> m = 2 ^ 53)"
  proof
    assume h: "ec = 1023 \<and> m = 2 ^ 53"
    then have "d = 52" using ec assms(2) d by simp
    then show False using m_le h by simp
  qed
  ultimately have "binary64 q = Finite (nearest q)"
    using False by (simp add: binary64_def ec_def m_def)
  with bound show ?thesis by simp
qed

lemma truediv_finite:
  assumes "0 \<le> a" and "a \<le> 2 ^ 1000" and "1 \<le> b"
  shows "truediv double_ops a b = Finite (nearest (of_int a / of_int b)) \<and>
         \<bar>nearest (of_int a / of_int b)\<bar> \<le> 2 ^ 1000"
proof -
  have "(of_int a :: rat) / of_int b \<le> of_int a"
    using assms(1,3) by (simp add: divide_le_eq mult_le_cancel_left1)
  also have "(of_int a :: rat) \<le> of_int (2 ^ 1000)"
    using assms(2) by (simp only: of_int_le_iff)
  finally have "\<bar>(of_int a :: rat) / of_int b\<bar> \<le> 2 ^ 1000"
    using assms(1,3) by simp
  then show ?thesis
    using binary64_finite [of "of_int a / of_int b" 1000] by (simp add: double_ops_def)
qed

lemma product_finite:
  assumes "\<bar>c\<bar> \<le> 2 ^ j" and "\<bar>x\<bar> \<le> 2 ^ k" and "j + k \<le> 1023"
  shows "double_mul (Finite c) (Finite x) = Finite (nearest (c * x)) \<and>
         \<bar>nearest (c * x)\<bar> \<le> 2 ^ (j + k)"
proof -
  have "\<bar>c * x\<bar> \<le> 2 ^ j * 2 ^ k"
    unfolding abs_mult using assms(1,2) by (intro mult_mono) simp_all
  then have "\<bar>c * x\<bar> \<le> 2 ^ (j + k)" by (simp add: power_add)
  then show ?thesis using binary64_finite [OF _ assms(3), of "c * x"] by simp
qed

lemma difference_finite:
  assumes "\<bar>x\<bar> \<le> 2 ^ k" and "\<bar>y\<bar> \<le> 2 ^ k" and "Suc k \<le> 1023"
  shows "double_sub (Finite x) (Finite y) = Finite (nearest (x - y)) \<and>
         \<bar>nearest (x - y)\<bar> \<le> 2 ^ Suc k"
proof -
  have "\<bar>x - y\<bar> \<le> \<bar>x\<bar> + \<bar>y\<bar>" by simp
  also have "\<dots> \<le> 2 ^ k + 2 ^ k" using assms(1,2) by (rule add_mono)
  finally have "\<bar>x - y\<bar> \<le> 2 ^ Suc k" by simp
  then show ?thesis using binary64_finite [OF _ assms(3), of "x - y"] by simp
qed

lemma literal_finite:
  assumes "\<bar>of_int m / 10 ^ d\<bar> \<le> (2 :: rat) ^ k" and "k \<le> 1023"
  shows "literal double_ops m d = Finite (nearest (of_int m / 10 ^ d)) \<and>
         \<bar>nearest (of_int m / 10 ^ d)\<bar> \<le> 2 ^ k"
  using binary64_finite [OF assms] by (simp add: double_ops_def)

lemma double_ops_fields:
  "fmul double_ops = double_mul" "fsub double_ops = double_sub"
  "int_round double_ops = double_round"
  by (simp_all add: double_ops_def)

lemma widen: "\<bar>x :: rat\<bar> \<le> 2 ^ j \<Longrightarrow> j \<le> k \<Longrightarrow> \<bar>x\<bar> \<le> 2 ^ k"
  by (meson order_trans one_le_numeral power_increasing)

lemma en_binary64:
  assumes "\<bar>asl\<bar> \<le> 2 ^ 1000" and "\<bar>asw\<bar> \<le> 2 ^ 1000"
  shows "calc_reading_ease_en double_ops (Finite asl) (Finite asw) =
           Inr (round_half_even (flesch_en_binary64 asl asw))"
proof -
  note c1 = literal_finite [of 206835 3 8]
  note c2 = literal_finite [of 1015 3 1]
  note c3 = literal_finite [of 846 1 7]
  have l1: "literal double_ops 206835 3 = Finite (nearest (206835 / 1000))"
    and b1: "\<bar>nearest (206835 / 1000)\<bar> \<le> 2 ^ 8"
    using c1 by simp_all
  have l2: "literal double_ops 1015 3 = Finite (nearest (1015 / 1000))"
    and b2: "\<bar>nearest (1015 / 1000)\<bar> \<le> 2 ^ 1"
    using c2 by simp_all
  have l3: "literal double_ops 846 1 = Finite (nearest (846 / 10))"
    and b3: "\<bar>nearest (846 / 10)\<bar> \<le> 2 ^ 7"
    using c3 by simp_all
  note p1 = product_finite [OF b2 assms(1)]
  have m1: "double_mul (Finite (nearest (1015 / 1000))) (Finite asl) =
              Finite (nearest (nearest (1015 / 1000) * asl))"
    and bm1: "\<bar>nearest (nearest (1015 / 1000) * asl)\<bar> \<le> 2 ^ 1001"
    using p1 by simp_all
  note d1 = difference_finite [OF widen [OF b1, of 1001] bm1]
  have s1: "double_sub (Finite (nearest (206835 / 1000)))
              (Finite (nearest (nearest (1015 / 1000) * asl))) =
            Finite (nearest (nearest (206835 / 1000) - nearest (nearest (1015 / 1000) * asl)))"
    and bs1: "\<bar>nearest (nearest (206835 / 1000) - nearest (nearest (1015 / 1000) * asl))\<bar>
              \<le> 2 ^ 1002"
    using d1 by simp_all
  note p2 = product_finite [OF b3 assms(2)]
  have m2: "double_mul (Finite (nearest (846 / 10))) (Finite asw) =
              Finite (nearest (nearest (846 / 10) * asw))"
    and bm2: "\<bar>nearest (nearest (846 / 10) * asw)\<bar> \<le> 2 ^ 1007"
    using p2 by simp_all
  note d2 = difference_finite [OF widen [OF bs1, of 1007] bm2]
  have s2: "double_sub
              (Finite (nearest (nearest (206835 / 1000) - nearest (nearest (1015 / 1000) * asl))))
              (Finite (nearest (nearest (846 / 10) * asw))) =
            Finite (flesch_en_binary64 asl asw)"
    using d2 by (simp add: flesch_en_binary64_def)
  show ?thesis
    unfolding calc_reading_ease_en_def l1 l2 l3
    by (simp only: double_ops_fields m1 s1 m2 s2 double_round.simps)
qed

lemma de_binary64:
  assumes "\<bar>asl\<bar> \<le> 2 ^ 1000" and "\<bar>asw\<bar> \<le> 2 ^ 1000"
  shows "calc_reading_ease_de double_ops (Finite asl) (Finite asw) =
           Inr (round_half_even (amstad_de_binary64 asl asw))"
proof -
  note c1 = literal_finite [of 180 0 8]
  note c3 = literal_finite [of 585 1 6]
  have l1: "literal double_ops 180 0 = Finite (nearest 180)"
    and b1: "\<bar>nearest 180\<bar> \<le> 2 ^ 8"
    using c1 by simp_all
  have l3: "literal double_ops 585 1 = Finite (nearest (585 / 10))"
    and b3: "\<bar>nearest (585 / 10)\<bar> \<le> 2 ^ 6"
    using c3 by simp_all
  note d1 = difference_finite [OF widen [OF b1, of 1000] assms(1)]
  have s1: "double_sub (Finite (nearest 180)) (Finite asl) = Finite (nearest (nearest 180 - asl))"
    and bs1: "\<bar>nearest (nearest 180 - asl)\<bar> \<le> 2 ^ 1001"
    using d1 by simp_all
  note p2 = product_finite [OF b3 assms(2)]
  have m2: "double_mul (Finite (nearest (585 / 10))) (Finite asw) =
              Finite (nearest (nearest (585 / 10) * asw))"
    and bm2: "\<bar>nearest (nearest (585 / 10) * asw)\<bar> \<le> 2 ^ 1006"
    using p2 by simp_all
  note d2 = difference_finite [OF widen [OF bs1, of 1006] bm2]
  have s2: "double_sub (Finite (nearest (nearest 180 - asl)))
              (Finite (nearest (nearest (585 / 10) * asw))) =
            Finite (amstad_de_binary64 asl asw)"
    using d2 by (simp add: amstad_de_binary64_def)
  show ?thesis
    unfolding calc_reading_ease_de_def l1 l3
    by (simp only: double_ops_fields s1 m2 s2 double_round.simps)
qed

lemma binary64_nonneg:
  assumes "0 \<le> q"
  shows "binary64 q = Infinity False \<or> (binary64 q = Finite (nearest q) \<and> 0 \<le> nearest q)"
proof (cases "q = 0")
  case True
  then show ?thesis by (simp add: binary64_def nearest_0)
next
  case False
  then have q: "0 < q" using assms by simp
  have "0 \<le> significand q"
    unfolding significand_def using pow2_pos [of "exponent q - 52"]
    by (intro round_half_even_nonneg) simp
  then have "0 \<le> nearest q"
    using q pow2_pos [of "exponent q - 52"] by (simp add: nearest_def)
  then show ?thesis using q by (simp add: binary64_def)
qed

lemma binary64_at_most:
  assumes "q \<le> 2 ^ k" and "k \<le> 1023"
  shows "binary64 q = Infinity True \<or> binary64 q = Finite (nearest q)"
proof (cases "0 \<le> q")
  case True
  then have "\<bar>q\<bar> \<le> 2 ^ k" using assms(1) by simp
  then show ?thesis using binary64_finite [OF _ assms(2), of q] by simp
next
  case False
  then show ?thesis by (simp add: binary64_def)
qed

lemma binary64_any: "(\<exists>s. binary64 q = Infinity s) \<or> binary64 q = Finite (nearest q)"
  by (simp add: binary64_def nearest_0)

lemma mul_cases:
  assumes "0 < c" and "x = Infinity False \<or> (x = Finite a \<and> 0 \<le> a)"
  shows "double_mul (Finite c) x = Infinity False \<or>
         (x = Finite a \<and> double_mul (Finite c) x = Finite (nearest (c * a)) \<and>
          0 \<le> nearest (c * a))"
  using assms binary64_nonneg [of "c * a"] by auto

lemma sub_cases:
  assumes "\<bar>c\<bar> \<le> 2 ^ k" and "k \<le> 1023"
    and "p = Infinity False \<or> (p = Finite u \<and> 0 \<le> u)"
  shows "double_sub (Finite c) p = Infinity True \<or>
         (p = Finite u \<and> double_sub (Finite c) p = Finite (nearest (c - u)))"
proof -
  have "c - u \<le> 2 ^ k" if "0 \<le> u" using that assms(1) by simp
  then show ?thesis
    using assms(3) binary64_at_most [OF _ assms(2), of "c - u"] by auto
qed

lemma sub_round_cases:
  assumes "d = Infinity True \<or> d = Finite x"
    and "p = Infinity False \<or> (p = Finite y \<and> 0 \<le> y)"
  shows "double_round (double_sub d p) = Inl OverflowError \<or>
         (d = Finite x \<and> p = Finite y \<and>
          double_round (double_sub d p) = Inr (round_half_even (nearest (x - y))))"
  using assms binary64_any [of "x - y"] by auto

lemma literal_positive:
  "0 < nearest (1015 / 1000)" "0 < nearest (846 / 10)" "0 < nearest (585 / 10)"
  by code_simp+

lemma literals:
  "literal double_ops 206835 3 = Finite (nearest (206835 / 1000))"
  "\<bar>nearest (206835 / 1000)\<bar> \<le> 2 ^ 8"
  "literal double_ops 1015 3 = Finite (nearest (1015 / 1000))"
  "literal double_ops 846 1 = Finite (nearest (846 / 10))"
  "literal double_ops 180 0 = Finite (nearest 180)"
  "\<bar>nearest 180\<bar> \<le> 2 ^ 8"
  "literal double_ops 585 1 = Finite (nearest (585 / 10))"
  using literal_finite [of 206835 3 8] literal_finite [of 1015 3 1] literal_finite [of 846 1 7]
    literal_finite [of 180 0 8] literal_finite [of 585 1 6]
  by simp_all

lemma en_cases:
  assumes "x = Infinity False \<or> (x = Finite asl \<and> 0 \<le> asl)"
    and "y = Infinity False \<or> (y = Finite asw \<and> 0 \<le> asw)"
  shows "calc_reading_ease_en double_ops x y = Inl OverflowError \<or>
         (x = Finite asl \<and> y = Finite asw \<and>
          calc_reading_ease_en double_ops x y =
            Inr (round_half_even (flesch_en_binary64 asl asw)))"
proof -
  note p1 = mul_cases [OF literal_positive(1) assms(1)]
  have d1': "double_sub (Finite (nearest (206835 / 1000)))
               (double_mul (Finite (nearest (1015 / 1000))) x) = Infinity True \<or>
             (x = Finite asl \<and>
              double_sub (Finite (nearest (206835 / 1000)))
                (double_mul (Finite (nearest (1015 / 1000))) x) =
              Finite (nearest (nearest (206835 / 1000) - nearest (nearest (1015 / 1000) * asl))))"
    using p1 sub_cases [OF literals(2), where p = "double_mul (Finite (nearest (1015 / 1000))) x"
        and u = "nearest (nearest (1015 / 1000) * asl)"]
    by auto
  note p2 = mul_cases [OF literal_positive(2) assms(2)]
  have p2': "double_mul (Finite (nearest (846 / 10))) y = Infinity False \<or>
             (double_mul (Finite (nearest (846 / 10))) y = Finite (nearest (nearest (846 / 10) * asw)) \<and>
              0 \<le> nearest (nearest (846 / 10) * asw))"
    using p2 by auto
  have y: "y = Finite asw" if "double_mul (Finite (nearest (846 / 10))) y = Finite z" for z
    using that p2 by auto
  have d1'': "double_sub (Finite (nearest (206835 / 1000)))
               (double_mul (Finite (nearest (1015 / 1000))) x) = Infinity True \<or>
              double_sub (Finite (nearest (206835 / 1000)))
                (double_mul (Finite (nearest (1015 / 1000))) x) =
              Finite (nearest (nearest (206835 / 1000) - nearest (nearest (1015 / 1000) * asl)))"
    using d1' by auto
  have x: "x = Finite asl"
    if "double_sub (Finite (nearest (206835 / 1000)))
          (double_mul (Finite (nearest (1015 / 1000))) x) = Finite z" for z
    using that d1' by auto
  from sub_round_cases [OF d1'' p2'] x y
  show ?thesis
    unfolding calc_reading_ease_en_def literals double_ops_fields flesch_en_binary64_def
    by auto
qed

lemma de_cases:
  assumes "x = Infinity False \<or> (x = Finite asl \<and> 0 \<le> asl)"
    and "y = Infinity False \<or> (y = Finite asw \<and> 0 \<le> asw)"
  shows "calc_reading_ease_de double_ops x y = Inl OverflowError \<or>
         (x = Finite asl \<and> y = Finite asw \<and>
          calc_reading_ease_de double_ops x y =
            Inr (round_half_even (amstad_de_binary64 asl asw)))"
proof -
  note d1 = sub_cases [OF literals(6) _ assms(1)]
  have d1': "double_sub (Finite (nearest 180)) x = Infinity True \<or>
             double_sub (Finite (nearest 180)) x = Finite (nearest (nearest 180 - asl))"
    using d1 by auto
  have x: "x = Finite asl" if "double_sub (Finite (nearest 180)) x = Finite z" for z
    using that d1 by auto
  note p2 = mul_cases [OF literal_positive(3) assms(2)]
  have p2': "double_mul (Finite (nearest (585 / 10))) y = Infinity False \<or>
             (double_mul (Finite (nearest (585 / 10))) y =
                Finite (nearest (nearest (585 / 10) * asw)) \<and>
              0 \<le> nearest (nearest (585 / 10) * asw))"
    using p2 by auto
  have y: "y = Finite asw" if "double_mul (Finite (nearest (585 / 10))) y = Finite z" for z
    using that p2 by auto
  from sub_round_cases [OF d1' p2'] x y
  show ?thesis
    unfolding calc_reading_ease_de_def literals double_ops_fields amstad_de_binary64_def
    by auto
qed

lemma truediv_cases:
  assumes "0 \<le> a" and "1 \<le> b"
  shows "truediv double_ops a b = Infinity False \<or>
         (truediv double_ops a b = Finite (nearest (of_int a / of_int b)) \<and>
          0 \<le> nearest (of_int a / of_int b))"
  using assms binary64_nonneg [of "of_int a / of_int b"] by (simp add: double_ops_def)

lemma binary64_overflow:
  assumes "2 ^ 1024 \<le> q"
  shows "binary64 q = Infinity False"
proof -
  have q: "0 < q" using assms by (meson less_le_trans zero_less_numeral zero_less_power)
  have "1024 \<le> ilog2 q"
  proof (rule ccontr)
    assume "\<not> 1024 \<le> ilog2 q"
    then have "ilog2 q + 1 \<le> 1024" by simp
    then have "pow2 (ilog2 q + 1) \<le> pow2 1024" by (rule pow2_mono)
    also have "pow2 1024 = 2 ^ 1024" by (simp add: pow2_def)
    finally show False using ilog2_bounds(2) [OF q] assms by simp
  qed
  then have "1024 \<le> exponent q" using q by (simp add: exponent_def)
  then show ?thesis using q by (simp add: binary64_def)
qed

section \<open>Facts about the constructor and the methods\<close>

lemma init_Inr:
  assumes "init Hyphenator w filename l = (Inr self, w')"
  shows "(l = ''de'' \<or> l = ''en'') \<and>
         w' = w\<lparr>opened := filename # opened w,
                loaded := (if l = ''de'' then ''de_DE'' else ''en_US'') # loaded w\<rparr> \<and>
         files w filename = Some (content self) \<and>
         hyphenation self = (if l = ''de'' then Hyphenator ''de_DE'' else Hyphenator ''en_US'') \<and>
         lang self = l \<and>
         words self = re_findall word_pattern (content self) \<and>
         n_sentences self = count_sentences self \<and>
         n_words self = int (length (words self)) \<and>
         n_syllables self = count_syllables self"
  using assms
  by (auto simp: init_def open_read_def new_Hyphenator_def Let_def count_sentences_def
        count_syllables_def count_word_syllables_def [abs_def]
        split: if_splits option.splits cong: if_cong)

lemma init_constructed:
  assumes "files w filename = Some text" and "l = ''de'' \<or> l = ''en''"
  shows "init Hyphenator w filename l =
           (Inr (constructed Hyphenator l text),
            w\<lparr>opened := filename # opened w,
              loaded := (if l = ''de'' then ''de_DE'' else ''en_US'') # loaded w\<rparr>)"
  using assms
  by (auto simp: init_def open_read_def new_Hyphenator_def Let_def count_sentences_def
        count_syllables_def constructed_def count_word_syllables_def [abs_def] cong: if_cong)

lemma sample_file: "files (sample_world text) ''test.txt'' = Some text"
  by (simp add: sample_world_def)

lemmas sample_init_en =
  init_constructed [where Hyphenator = sample_Hyphenator and l = "''en''",
    OF sample_file disjI2 [OF refl]]

lemmas sample_init_de =
  init_constructed [where Hyphenator = sample_Hyphenator and l = "''de''",
    OF sample_file disjI1 [OF refl]]

lemma count_word_syllables_pos: "1 \<le> count_word_syllables self word"
  by (cases "hyphenation self word") (simp_all add: count_word_syllables_def Let_def)

lemma sum_list_at_least_length:
  "(\<And>x. 1 \<le> f x) \<Longrightarrow> int (length xs) \<le> sum_list (map f xs)"
proof (induction xs)
  case Nil
  show ?case by simp
next
  case (Cons x xs)
  then have "int (length xs) \<le> sum_list (map f xs)" by simp
  moreover have "1 \<le> f x" by (rule Cons.prems)
  ultimately show ?case by simp
qed

lemma count_syllables_at_least_words: "count_words self \<le> count_syllables self"
  unfolding count_words_def count_syllables_def
  by (rule sum_list_at_least_length) (rule count_word_syllables_pos)

lemma calc_reading_ease_zero:
  "n_sentences self = 0 \<or> n_words self = 0 \<Longrightarrow> calc_reading_ease fp self = Inl ZeroDivisionError"
  by (auto simp: calc_reading_ease_def py_truediv_def)

lemma call_same: "snd (call fp m self) = self"
  by (cases m) simp_all

lemma calls_same: "snd (calls fp ms self) = self"
proof (induction ms)
  case Nil
  show ?case by simp
next
  case (Cons m ms)
  then show ?case by (simp add: split_beta call_same)
qed

subsection \<open>The examples\<close>

lemma sample_words:
  "re_findall word_pattern sample_text = [[65, 98], [99, 100, 101, 102, 103]]"
  by (simp add: sample_text_def word_pattern_def is_letter_def in_range_def)

lemma sample_sentences: "re_findall sentence_pattern sample_text = [sample_text]"
  by (simp add: sample_text_def sentence_pattern_def is_upper_def is_dot_def is_terminal_def
        is_space_def in_range_def)

lemma sample_fields:
  "n_sentences (constructed sample_Hyphenator ''en'' sample_text) = 1"
  "n_words (constructed sample_Hyphenator ''en'' sample_text) = 2"
  "n_syllables (constructed sample_Hyphenator ''en'' sample_text) = 3"
  "lang (constructed sample_Hyphenator ''en'' sample_text) = ''en''"
  by (simp_all add: constructed_def sample_words sample_sentences sample_Hyphenator_def)

lemma wrapped_sentences:
  "re_findall sentence_pattern wrapped_text = []"
  "re_findall sentence_pattern fox_text = []"
  by (simp_all add: wrapped_text_def fox_text_def sentence_pattern_def is_upper_def is_dot_def
        is_terminal_def is_space_def in_range_def)

lemma wrapped_heuristic:
  "heuristic_count any_char wrapped_text = 1"
  "heuristic_count any_char fox_text = 1"
  by (simp_all add: wrapped_text_def fox_text_def any_char_def is_upper_def is_terminal_def
        is_space_def in_range_def)

lemma thirteen_words_words:
  "re_findall word_pattern thirteen_words =
     [65, 98, 99, 100] # replicate 11 [97, 98, 99, 100] @ [[97, 98, 99, 100, 101, 102, 103]]"
  by code_simp

lemma thirteen_words_sentences: "length (re_findall sentence_pattern thirteen_words) = 1"
  by code_simp

lemma thirteen_words_fields:
  "n_sentences (constructed sample_Hyphenator ''de'' thirteen_words) = 1"
  "n_words (constructed sample_Hyphenator ''de'' thirteen_words) = 13"
  "n_syllables (constructed sample_Hyphenator ''de'' thirteen_words) = 27"
  "lang (constructed sample_Hyphenator ''de'' thirteen_words) = ''de''"
  by (simp_all add: constructed_def thirteen_words_words thirteen_words_sentences
        sample_Hyphenator_def sum_list_replicate del: re_findall.simps)

lemma many_words_words_aux:
  "re_findall word_pattern (concat (replicate n [97, 32])) = replicate n [97]"
  by (induction n)
    (simp_all add: findall_words_Nil findall_words_Cons is_letter_def in_range_def
       del: re_findall.simps)

lemma many_words_words:
  "re_findall word_pattern (many_words n) = [65] # replicate n [97]"
  by (simp add: many_words_def findall_words_Cons many_words_words_aux is_letter_def in_range_def
        del: re_findall.simps)

lemma no_upper_no_sentence:
  "\<forall>c\<in>set s. \<not> is_upper c \<Longrightarrow> heuristic_count body s = 0"
  by (induction s) simp_all

lemma many_words_sentences:
  "length (re_findall sentence_pattern (many_words n)) = 1"
proof -
  have "\<forall>c\<in>set (concat (replicate n [97, 32])). \<not> is_upper c"
    by (auto simp: is_upper_def in_range_def)
  then have "heuristic_count is_dot (concat (replicate n [97, 32])) = 0"
    by (rule no_upper_no_sentence)
  then show ?thesis
    by (simp add: findall_sentences many_words_def is_upper_def is_terminal_def is_space_def
          in_range_def del: re_findall.simps)
qed

lemma many_words_fields:
  "n_sentences (constructed sample_Hyphenator ''en'' (many_words n)) = 1"
  "n_words (constructed sample_Hyphenator ''en'' (many_words n)) = int n + 1"
  "n_syllables (constructed sample_Hyphenator ''en'' (many_words n)) = int n + 1"
  "lang (constructed sample_Hyphenator ''en'' (many_words n)) = ''en''"
  by (simp_all add: constructed_def many_words_words many_words_sentences sample_Hyphenator_def
        sum_list_replicate del: re_findall.simps)

lemma many_words_overflow:
  "calc_reading_ease double_ops (constructed sample_Hyphenator ''en'' (many_words (2 ^ 1024))) =
     Inl OverflowError"
proof -
  have "(2 :: rat) ^ 1024 \<le> of_int (int (2 ^ 1024) + 1) / of_int 1" by simp
  then have x: "truediv double_ops (int (2 ^ 1024) + 1) 1 = Infinity False"
    using binary64_overflow [of "of_int (int (2 ^ 1024) + 1) / of_int 1"]
    by (simp add: double_ops_def)
  have y: "0 \<le> int (2 ^ 1024) + 1" "1 \<le> int (2 ^ 1024) + 1" by simp_all
  note z = truediv_cases [OF y]
  have "calc_reading_ease_en double_ops (truediv double_ops (int (2 ^ 1024) + 1) 1)
          (truediv double_ops (int (2 ^ 1024) + 1) (int (2 ^ 1024) + 1)) = Inl OverflowError"
    using en_cases [OF disjI1 [OF x] z] x by auto
  then show ?thesis
    by (simp add: calc_reading_ease_def py_truediv_def returned_def many_words_fields)
qed


lemma digits_words: "re_findall word_pattern [49, 50, 32, 51] = []"
  by (simp add: word_pattern_def is_letter_def in_range_def)

lemma digits_sentences: "re_findall sentence_pattern [49, 50, 32, 51] = []"
  by (simp add: sentence_pattern_def is_upper_def in_range_def)

section \<open>Sentences\<close>

text \<open>
  Claim C1.  The sentence count is to be the number of matches, found from left to right
  without overlap, of the heuristic: an uppercase letter, then as few characters of any
  kind as possible, then a terminal mark that is followed by a whitespace character.  The
  docstring of \<^verbatim>\<open>count_sentences\<close> says the same: a sentence starts with an uppercase
  letter and ends with a mark followed by whitespace.  A sentence that runs over a line
  break is such a match, but the pattern of line 43 is compiled without the flag that lets
  the dot match a line feed, and the constructor and \<open>count_sentences\<close> count no sentence
  in the text \<^verbatim>\<open>A\<close>, line feed, \<^verbatim>\<open>b. \<close> nor in \<^verbatim>\<open>The fox\<close>, line feed,
  \<^verbatim>\<open>jumps. \<close>, where the heuristic counts one.  (What the code counts is the heuristic
  with the line feed shut out, lemma \<open>findall_sentences\<close>.)
\<close>

theorem wrapped_sentence_not_counted:
  "init sample_Hyphenator (sample_world wrapped_text) ''test.txt'' ''en'' =
     (Inr (constructed sample_Hyphenator ''en'' wrapped_text),
      (sample_world wrapped_text)\<lparr>opened := [''test.txt''], loaded := [''en_US'']\<rparr>) \<and>
   n_sentences (constructed sample_Hyphenator ''en'' wrapped_text) = 0 \<and>
   count_sentences (constructed sample_Hyphenator ''en'' wrapped_text) = 0 \<and>
   heuristic_count any_char wrapped_text = 1 \<and>
   n_sentences (constructed sample_Hyphenator ''en'' fox_text) = 0 \<and>
   count_sentences (constructed sample_Hyphenator ''en'' fox_text) = 0 \<and>
   heuristic_count any_char fox_text = 1"
proof -
  have "n_sentences (constructed sample_Hyphenator ''en'' wrapped_text) = 0"
    and "count_sentences (constructed sample_Hyphenator ''en'' wrapped_text) = 0"
    and "n_sentences (constructed sample_Hyphenator ''en'' fox_text) = 0"
    and "count_sentences (constructed sample_Hyphenator ''en'' fox_text) = 0"
    by (simp_all add: constructed_def count_sentences_def wrapped_sentences
          del: re_findall.simps)
  then show ?thesis
    using sample_init_en [of wrapped_text] wrapped_heuristic by (simp add: sample_world_def)
qed

section \<open>Words\<close>



section \<open>Syllables\<close>

text \<open>
  Claim C3.  A word for which the hyphenation library returns the empty list counts as
  one syllable, any other word as the length of the list returned; the syllable count of
  the document, as the constructor stores it and as \<open>count_syllables\<close> returns it, is
  the sum of these numbers over the words extracted from the text.
\<close>

theorem syllable_counts:
  assumes "init Hyphenator w filename l = (Inr self, w')"
  shows "(\<forall>word. count_word_syllables self word =
            (if hyphenation self word = [] then 1 else int (length (hyphenation self word)))) \<and>
         n_syllables self =
           sum_list (map (count_word_syllables self) (re_findall word_pattern (content self))) \<and>
         count_syllables self = n_syllables self"
proof -
  have "count_word_syllables self word =
          (if hyphenation self word = [] then 1 else int (length (hyphenation self word)))" for word
    by (simp add: count_word_syllables_def Let_def)
  moreover have "n_syllables self = count_syllables self"
    and "words self = re_findall word_pattern (content self)"
    using init_Inr [OF assms] by simp_all
  ultimately show ?thesis by (simp add: count_syllables_def)
qed

theorem syllable_counts_witness:
  "hyphenation (constructed sample_Hyphenator ''en'' sample_text) [65, 98] = [] \<and>
   count_word_syllables (constructed sample_Hyphenator ''en'' sample_text) [65, 98] = 1 \<and>
   hyphenation (constructed sample_Hyphenator ''en'' sample_text) [99, 100, 101, 102, 103] =
     [[99, 100], [101, 102, 103]] \<and>
   count_word_syllables (constructed sample_Hyphenator ''en'' sample_text)
     [99, 100, 101, 102, 103] = 2 \<and>
   n_syllables (constructed sample_Hyphenator ''en'' sample_text) = 3 \<and>
   count_syllables (constructed sample_Hyphenator ''en'' sample_text) = 3"
proof -
  note t = syllable_counts [OF sample_init_en, of sample_text]
  have h: "hyphenation (constructed sample_Hyphenator ''en'' sample_text) [65, 98] = []"
    "hyphenation (constructed sample_Hyphenator ''en'' sample_text) [99, 100, 101, 102, 103] =
       [[99, 100], [101, 102, 103]]"
    by (simp_all add: constructed_def sample_Hyphenator_def)
  show ?thesis using t h sample_fields by simp
qed

text \<open>
  Claim C7, as the code has it.  Every word contributes at least one syllable to the
  syllable count, which is the sum of the contributions of the words; hence the
  syllable count of a document is never below its word count.
\<close>

theorem every_word_counts:
  assumes "init Hyphenator w filename l = (Inr self, w')"
  shows "(\<forall>word. 1 \<le> count_word_syllables self word) \<and>
         n_syllables self = sum_list (map (count_word_syllables self) (words self)) \<and>
         n_words self \<le> n_syllables self"
proof -
  have "n_words self = count_words self" and "n_syllables self = count_syllables self"
    using init_Inr [OF assms] by (simp_all add: count_words_def)
  then show ?thesis
    using count_syllables_at_least_words [of self]
    by (simp add: count_word_syllables_pos count_syllables_def)
qed

theorem every_word_counts_witness:
  "1 \<le> count_word_syllables (constructed sample_Hyphenator ''en'' sample_text) [65, 98] \<and>
   n_words (constructed sample_Hyphenator ''en'' sample_text) = 2 \<and>
   n_syllables (constructed sample_Hyphenator ''en'' sample_text) = 3"
  using every_word_counts [OF sample_init_en, of sample_text] sample_fields
  by simp

text \<open>
  Claim C7 as stated also allows a document whose syllable count is below its word
  count.  No file, language and hyphenation library give the constructor such a
  document.
\<close>

theorem fewer_syllables_than_words_counterexample:
  "\<not> (\<exists>Hyphenator w filename l self w'.
         init Hyphenator w filename l = (Inr self, w') \<and> n_syllables self < n_words self)"
proof
  assume "\<exists>Hyphenator w filename l self w'.
            init Hyphenator w filename l = (Inr self, w') \<and> n_syllables self < n_words self"
  then obtain Hyphenator w filename l self w'
    where i: "init Hyphenator w filename l = (Inr self, w')"
      and less: "n_syllables self < n_words self"
    by blast
  have "n_words self = count_words self" and "n_syllables self = count_syllables self"
    using init_Inr [OF i] by (simp_all add: count_words_def)
  then show False
    using less count_syllables_at_least_words [of self] by simp
qed

section \<open>Errors\<close>

text \<open>
  Claim C4.  For a document with no sentence or no word, \<open>calc_reading_ease\<close> raises
  \<^verbatim>\<open>ZeroDivisionError\<close>, with whatever floating point arithmetic: no score is
  returned.
\<close>

theorem degenerate_document_fails:
  assumes "init Hyphenator w filename l = (Inr self, w')"
    and "re_findall sentence_pattern (content self) = [] \<or>
         re_findall word_pattern (content self) = []"
  shows "files w filename = Some (content self) \<and>
         calc_reading_ease fp self = Inl ZeroDivisionError"
proof -
  have "n_sentences self = 0 \<or> n_words self = 0"
    using init_Inr [OF assms(1)] assms(2) by (auto simp: count_sentences_def)
  then show ?thesis
    using init_Inr [OF assms(1)] by (simp add: calc_reading_ease_zero)
qed

theorem degenerate_document_fails_witness:
  "re_findall word_pattern (content (constructed sample_Hyphenator ''de'' [])) = [] \<and>
   calc_reading_ease double_ops (constructed sample_Hyphenator ''de'' []) = Inl ZeroDivisionError"
proof -
  have e: "re_findall word_pattern (content (constructed sample_Hyphenator ''de'' [])) = []"
    by (simp add: constructed_def word_pattern_def)
  then show ?thesis
    using degenerate_document_fails [OF sample_init_de disjI2, OF e, of double_ops]
    by simp
qed

text \<open>
  Claim C5.  With a language code other than \<^verbatim>\<open>en\<close> and \<^verbatim>\<open>de\<close> the constructor
  raises its exception and leaves the world as it found it: neither log has grown, so
  no file was opened or read and no hyphenator was created.
\<close>

theorem unsupported_language:
  assumes "l \<noteq> ''en''" and "l \<noteq> ''de''"
  shows "init Hyphenator w filename l =
           (Inl (Exception ''Requested language not supported (Supported: 'en', 'de').''), w) \<and>
         opened (snd (init Hyphenator w filename l)) = opened w \<and>
         loaded (snd (init Hyphenator w filename l)) = loaded w"
  using assms by (simp add: init_def)

theorem unsupported_language_witness:
  "''fr'' \<noteq> ''en'' \<and> ''fr'' \<noteq> ''de'' \<and>
   init sample_Hyphenator (sample_world sample_text) ''test.txt'' ''fr'' =
     (Inl (Exception ''Requested language not supported (Supported: 'en', 'de').''),
      sample_world sample_text) \<and>
   opened (snd (init sample_Hyphenator (sample_world sample_text) ''test.txt'' ''fr'')) = [] \<and>
   loaded (snd (init sample_Hyphenator (sample_world sample_text) ''test.txt'' ''fr'')) = []"
proof -
  have l: "''fr'' \<noteq> ''en''" "''fr'' \<noteq> ''de''" by simp_all
  show ?thesis
    using unsupported_language [OF l, of sample_Hyphenator "sample_world sample_text" "''test.txt''"]
    by (simp add: sample_world_def)
qed

text \<open>
  With one of the two languages, on the contrary, a hyphenator is created and the file is
  opened.
\<close>

lemma supported_language_opens:
  "l = ''en'' \<or> l = ''de'' \<Longrightarrow>
   opened (snd (init Hyphenator w filename l)) = filename # opened w \<and>
   loaded (snd (init Hyphenator w filename l)) = (if l = ''de'' then ''de_DE'' else ''en_US'') # loaded w"
  by (auto simp: init_def open_read_def new_Hyphenator_def Let_def split: option.splits)

text \<open>
  Claim C10.  For a document without any word and without any sentence, in one of the two
  languages, the constructor succeeds; the three counts it stores, and the three
  counting methods, give 0; only \<open>calc_reading_ease\<close> fails, with
  \<^verbatim>\<open>ZeroDivisionError\<close>.
\<close>

theorem degenerate_document_constructs:
  assumes "files w filename = Some text"
    and "re_findall word_pattern text = []"
    and "re_findall sentence_pattern text = []"
    and "l = ''de'' \<or> l = ''en''"
  shows "\<exists>self. fst (init Hyphenator w filename l) = Inr self \<and>
           opened (snd (init Hyphenator w filename l)) = filename # opened w \<and>
           content self = text \<and>
           n_sentences self = 0 \<and> n_words self = 0 \<and> n_syllables self = 0 \<and>
           count_sentences self = 0 \<and> count_words self = 0 \<and> count_syllables self = 0 \<and>
           calc_reading_ease fp self = Inl ZeroDivisionError"
  using assms
  by (auto simp: init_def open_read_def new_Hyphenator_def Let_def count_sentences_def
        count_words_def count_syllables_def calc_reading_ease_def py_truediv_def)

theorem degenerate_document_constructs_witness:
  "files (sample_world [49, 50, 32, 51]) ''test.txt'' = Some [49, 50, 32, 51] \<and>
   re_findall word_pattern [49, 50, 32, 51] = [] \<and>
   re_findall sentence_pattern [49, 50, 32, 51] = [] \<and>
   init sample_Hyphenator (sample_world [49, 50, 32, 51]) ''test.txt'' ''de'' =
     (Inr (constructed sample_Hyphenator ''de'' [49, 50, 32, 51]),
      (sample_world [49, 50, 32, 51])\<lparr>opened := [''test.txt''], loaded := [''de_DE'']\<rparr>) \<and>
   n_sentences (constructed sample_Hyphenator ''de'' [49, 50, 32, 51]) = 0 \<and>
   n_words (constructed sample_Hyphenator ''de'' [49, 50, 32, 51]) = 0 \<and>
   n_syllables (constructed sample_Hyphenator ''de'' [49, 50, 32, 51]) = 0 \<and>
   calc_reading_ease double_ops (constructed sample_Hyphenator ''de'' [49, 50, 32, 51]) =
     Inl ZeroDivisionError"
proof -
  have l: "''de'' = ''de'' \<or> ''de'' = ''en''" by simp
  show ?thesis
    using degenerate_document_constructs [OF sample_file digits_words digits_sentences l,
        of sample_Hyphenator double_ops]
      sample_init_de [of "[49, 50, 32, 51]"] sample_file [of "[49, 50, 32, 51]"]
      digits_words digits_sentences
    by (auto simp: sample_world_def)
qed

section \<open>The score\<close>

text \<open>
  Claim C6, as the code has it.  For a document with at least one sentence and one word
  \<open>calc_reading_ease\<close> returns the score of the formula of the language in binary64
  arithmetic: with \<open>asl\<close> the quotient of word count and sentence count and \<open>asw\<close> the
  quotient of syllable count and word count, both rounded to binary64, it is
  \<^verbatim>\<open>206.835 - 1.015 * asl - 84.6 * asw\<close> in English and \<^verbatim>\<open>180 - asl - 58.5 * asw\<close>
  in German, with every literal, product and difference rounded to binary64, and the
  result rounded to the nearest integer, a half to the even one.  The one other outcome is
  \<^verbatim>\<open>OverflowError\<close>, and it takes more than \<open>2 ^ 1000\<close> words or syllables.
\<close>

theorem reading_ease_binary64:
  assumes "init Hyphenator w filename l = (Inr self, w')"
    and "1 \<le> n_sentences self" and "1 \<le> n_words self"
  shows "(l = ''en'' \<or> l = ''de'') \<and>
         (calc_reading_ease double_ops self =
            Inr (Some (binary64_score
              (if l = ''en'' then flesch_en_binary64 else amstad_de_binary64)
              (n_sentences self) (n_words self) (n_syllables self))) \<or>
          calc_reading_ease double_ops self = Inl OverflowError) \<and>
         (n_words self \<le> 2 ^ 1000 \<and> n_syllables self \<le> 2 ^ 1000 \<longrightarrow>
          calc_reading_ease double_ops self =
            Inr (Some (binary64_score
              (if l = ''en'' then flesch_en_binary64 else amstad_de_binary64)
              (n_sentences self) (n_words self) (n_syllables self))))"
proof -
  note i = init_Inr [OF assms(1)]
  have l: "lang self = l" "l = ''en'' \<or> l = ''de''" using i by auto
  have y: "0 \<le> n_syllables self"
    using i count_syllables_at_least_words [of self] assms(3) by (simp add: count_words_def)
  have w: "0 \<le> n_words self" using assms(3) by simp
  define asl where "asl = nearest (of_int (n_words self) / of_int (n_sentences self))"
  define asw where "asw = nearest (of_int (n_syllables self) / of_int (n_words self))"
  have d: "py_truediv double_ops (n_words self) (n_sentences self) =
             Inr (truediv double_ops (n_words self) (n_sentences self))"
    "py_truediv double_ops (n_syllables self) (n_words self) =
             Inr (truediv double_ops (n_syllables self) (n_words self))"
    using assms(2,3) by (simp_all add: py_truediv_def)
  note x = truediv_cases [OF w assms(2), folded asl_def]
  note z = truediv_cases [OF y assms(3), folded asw_def]
  have any: "calc_reading_ease double_ops self =
      Inr (Some (binary64_score (if l = ''en'' then flesch_en_binary64 else amstad_de_binary64)
        (n_sentences self) (n_words self) (n_syllables self))) \<or>
      calc_reading_ease double_ops self = Inl OverflowError"
  proof (cases "l = ''en''")
    case True
    then show ?thesis
      using l d en_cases [OF x z]
      by (auto simp: calc_reading_ease_def returned_def binary64_score_def asl_def asw_def)
  next
    case False
    then have "l = ''de''" using l by simp
    then show ?thesis
      using l d de_cases [OF x z]
      by (auto simp: calc_reading_ease_def returned_def binary64_score_def asl_def asw_def)
  qed
  have small: "calc_reading_ease double_ops self \<noteq> Inl OverflowError"
    if "n_words self \<le> 2 ^ 1000" and "n_syllables self \<le> 2 ^ 1000"
  proof -
    note a = truediv_finite [OF w that(1) assms(2)]
    note b = truediv_finite [OF y that(2) assms(3)]
    show ?thesis
      using l d a b en_binary64 [OF conjunct2 [OF a] conjunct2 [OF b]]
        de_binary64 [OF conjunct2 [OF a] conjunct2 [OF b]]
      by (auto simp: calc_reading_ease_def returned_def)
  qed
  show ?thesis using l(2) any small by blast
qed

lemma sample_fields_de:
  "n_sentences (constructed sample_Hyphenator ''de'' sample_text) = 1"
  "n_words (constructed sample_Hyphenator ''de'' sample_text) = 2"
  "n_syllables (constructed sample_Hyphenator ''de'' sample_text) = 3"
  by (simp_all add: constructed_def sample_words sample_sentences sample_Hyphenator_def)

lemma sample_binary64:
  "binary64_score flesch_en_binary64 1 2 3 = 78"
  "binary64_score amstad_de_binary64 1 2 3 = 90"
  by code_simp+

text \<open>
  Two more scores as CPython computes them, for 1 sentence with 9 words and 18 syllables
  and for 1 sentence with 49 words and 49 syllables; the formula over the real numbers
  gives \<open>28.5\<close> and \<open>72.5\<close>.
\<close>

lemma english_binary64:
  "binary64_score flesch_en_binary64 1 9 18 = 29"
  "binary64_score flesch_en_binary64 1 49 49 = 73"
  "flesch_en (9 / 1) (18 / 9) = 57 / 2"
  "flesch_en (49 / 1) (49 / 49) = 145 / 2"
  by code_simp+

theorem reading_ease_binary64_witness:
  "1 \<le> n_sentences (constructed sample_Hyphenator ''en'' sample_text) \<and>
   1 \<le> n_words (constructed sample_Hyphenator ''en'' sample_text) \<and>
   n_words (constructed sample_Hyphenator ''en'' sample_text) \<le> 2 ^ 1000 \<and>
   n_syllables (constructed sample_Hyphenator ''en'' sample_text) \<le> 2 ^ 1000 \<and>
   calc_reading_ease double_ops (constructed sample_Hyphenator ''en'' sample_text) =
     Inr (Some 78) \<and>
   calc_reading_ease double_ops (constructed sample_Hyphenator ''de'' sample_text) =
     Inr (Some 90)"
proof -
  have en: "1 \<le> n_sentences (constructed sample_Hyphenator ''en'' sample_text)"
    "1 \<le> n_words (constructed sample_Hyphenator ''en'' sample_text)"
    by (simp_all add: sample_fields)
  have de: "1 \<le> n_sentences (constructed sample_Hyphenator ''de'' sample_text)"
    "1 \<le> n_words (constructed sample_Hyphenator ''de'' sample_text)"
    by (simp_all add: sample_fields_de)
  show ?thesis
    using reading_ease_binary64 [OF sample_init_en en] reading_ease_binary64 [OF sample_init_de de]
    by (simp add: sample_fields sample_fields_de sample_binary64)
qed

text \<open>
  Claim C6 as stated takes the score for the rounded value of the formula.  The German
  document \<open>thirteen_words\<close> has 1 sentence, 13 words and 27 syllables; the formula
  gives \<open>180 - 13 - 58.5 * 27 / 13 = 45.5\<close>, which either rounding takes to 46, and
  \<open>calc_reading_ease\<close> returns 45: in binary64 the quotient \<open>27 / 13\<close> and the product
  are rounded, and the difference comes out just below 45.5.  And the English document
  \<open>many_words (2 ^ 1024)\<close>, of 1 sentence and \<open>2 ^ 1024 + 1\<close> words, has no score: its
  quotient of words by sentences is no finite binary64 number, and \<^verbatim>\<open>OverflowError\<close>
  is raised.
\<close>

lemma amstad_13_27: "binary64_score amstad_de_binary64 1 13 27 = 45"
  by code_simp

theorem rounded_formula_counterexample:
  "init sample_Hyphenator (sample_world thirteen_words) ''test.txt'' ''de'' =
     (Inr (constructed sample_Hyphenator ''de'' thirteen_words),
      (sample_world thirteen_words)\<lparr>opened := [''test.txt''], loaded := [''de_DE'']\<rparr>) \<and>
   n_sentences (constructed sample_Hyphenator ''de'' thirteen_words) = 1 \<and>
   n_words (constructed sample_Hyphenator ''de'' thirteen_words) = 13 \<and>
   n_syllables (constructed sample_Hyphenator ''de'' thirteen_words) = 27 \<and>
   calc_reading_ease double_ops (constructed sample_Hyphenator ''de'' thirteen_words) =
     Inr (Some 45) \<and>
   amstad_de (13 / 1) (27 / 13) = 91 / 2 \<and>
   round_half_even (91 / 2) = 46 \<and> round_half_away (91 / 2) = 46 \<and>
   init sample_Hyphenator (sample_world (many_words (2 ^ 1024))) ''test.txt'' ''en'' =
     (Inr (constructed sample_Hyphenator ''en'' (many_words (2 ^ 1024))),
      (sample_world (many_words (2 ^ 1024)))\<lparr>opened := [''test.txt''], loaded := [''en_US'']\<rparr>) \<and>
   n_sentences (constructed sample_Hyphenator ''en'' (many_words (2 ^ 1024))) = 1 \<and>
   n_words (constructed sample_Hyphenator ''en'' (many_words (2 ^ 1024))) = 2 ^ 1024 + 1 \<and>
   calc_reading_ease double_ops (constructed sample_Hyphenator ''en'' (many_words (2 ^ 1024))) =
     Inl OverflowError"
proof -
  have "calc_reading_ease double_ops (constructed sample_Hyphenator ''de'' thirteen_words) =
      Inr (Some 45)"
    using thirteen_words_fields amstad_13_27
      de_binary64 [of "nearest (13 / 1)" "nearest (27 / 13)"]
      truediv_finite [of 13 1] truediv_finite [of 27 13]
    by (simp add: calc_reading_ease_def py_truediv_def returned_def binary64_score_def)
  moreover have "amstad_de (13 / 1) (27 / 13) = 91 / 2"
    by (simp add: amstad_de_def)
  moreover have "round_half_even (91 / 2) = 46" "round_half_away (91 / 2) = 46"
    by code_simp+
  ultimately show ?thesis
    using sample_init_de [of thirteen_words] thirteen_words_fields
      sample_init_en [of "many_words (2 ^ 1024)"] many_words_fields [of "2 ^ 1024"]
      many_words_overflow
    by (simp add: sample_world_def)
qed

section \<open>The object after construction\<close>

text \<open>
  Claim C8.  After construction the three counts are non-negative, the sentence count
  is the number of matches of the sentence pattern in the text, the word count is the
  length of the word list extracted from the text, and the syllable count is the sum over
  that list.  Whatever methods are called afterwards, in whatever order, the object
  with its counts stays as it was, and a call of \<open>count_words\<close> then returns the stored
  word count.
\<close>

theorem counts_fixed_at_construction:
  assumes "init Hyphenator w filename l = (Inr self, w')"
  shows "0 \<le> n_sentences self \<and> 0 \<le> n_words self \<and> 0 \<le> n_syllables self \<and>
         n_sentences self = int (length (re_findall sentence_pattern (content self))) \<and>
         words self = re_findall word_pattern (content self) \<and>
         n_words self = int (length (words self)) \<and>
         n_syllables self = sum_list (map (count_word_syllables self) (words self)) \<and>
         snd (calls fp ms self) = self \<and>
         fst (call fp Count_words (snd (calls fp ms self))) = Inr (Some (n_words self)) \<and>
         count_words self = n_words self"
proof -
  note i = init_Inr [OF assms]
  have "0 \<le> n_syllables self"
    using i count_syllables_at_least_words [of self] by (simp add: count_words_def)
  then show ?thesis
    using i by (simp add: calls_same count_words_def count_sentences_def count_syllables_def)
qed

theorem counts_fixed_at_construction_witness:
  "snd (calls double_ops [Calc_reading_ease, Count_syllables, Count_word_syllables [65, 98]]
          (constructed sample_Hyphenator ''en'' sample_text)) =
     constructed sample_Hyphenator ''en'' sample_text \<and>
   fst (call double_ops Count_words
          (snd (calls double_ops [Calc_reading_ease, Count_syllables, Count_word_syllables [65, 98]]
                  (constructed sample_Hyphenator ''en'' sample_text)))) = Inr (Some 2) \<and>
   n_sentences (constructed sample_Hyphenator ''en'' sample_text) = 1 \<and>
   n_words (constructed sample_Hyphenator ''en'' sample_text) = 2 \<and>
   n_syllables (constructed sample_Hyphenator ''en'' sample_text) = 3"
  using counts_fixed_at_construction [OF sample_init_en, of sample_text double_ops
      "[Calc_reading_ease, Count_syllables, Count_word_syllables [65, 98]]"]
    sample_fields
  by simp

text \<open>
  Claim C9.  Two calls of \<open>calc_reading_ease\<close> in a row return the same result and
  leave the object as it was; so does a call after any other calls; and the result
  depends on the three counts and the language only, not on the text, the word list
  or the dictionary.
\<close>

theorem reading_ease_repeatable:
  "calls fp [Calc_reading_ease, Calc_reading_ease] self =
     ([calc_reading_ease fp self, calc_reading_ease fp self], self) \<and>
   fst (call fp Calc_reading_ease (snd (calls fp ms self))) = calc_reading_ease fp self \<and>
   (n_sentences other = n_sentences self \<and> n_words other = n_words self \<and>
    n_syllables other = n_syllables self \<and> lang other = lang self \<longrightarrow>
      calc_reading_ease fp other = calc_reading_ease fp self)"
  by (auto simp: calls_same calc_reading_ease_def split: sum.splits)

lemma sample_score:
  "calc_reading_ease double_ops (constructed sample_Hyphenator ''en'' sample_text) = Inr (Some 78)"
  using sample_fields sample_binary64(1)
    en_binary64 [of "nearest 2" "nearest (3 / 2)"] truediv_finite [of 2 1] truediv_finite [of 3 2]
  by (simp add: calc_reading_ease_def py_truediv_def returned_def binary64_score_def)

theorem reading_ease_repeatable_witness:
  "calls double_ops [Calc_reading_ease, Calc_reading_ease]
     (constructed sample_Hyphenator ''en'' sample_text) =
     ([Inr (Some 78), Inr (Some 78)], constructed sample_Hyphenator ''en'' sample_text) \<and>
   fst (call double_ops Calc_reading_ease
          (snd (calls double_ops [Count_words, Calc_reading_ease]
                  (constructed sample_Hyphenator ''en'' sample_text)))) = Inr (Some 78) \<and>
   calc_reading_ease double_ops
     ((constructed sample_Hyphenator ''en'' sample_text)\<lparr>content := [], words := []\<rparr>) =
     Inr (Some 78)"
  using reading_ease_repeatable [of double_ops "constructed sample_Hyphenator ''en'' sample_text"
      "[Count_words, Calc_reading_ease]"
      "(constructed sample_Hyphenator ''en'' sample_text)\<lparr>content := [], words := []\<rparr>"]
    sample_score
  by simp

end
